theory Spec2Isabelle
  imports Main "HOL-Library.AList"
begin

section \<open>JavaScript values\<close>

text \<open>
  The values that index.js handles. \<open>JNum\<close> carries the integer-valued numbers that print
  in plain decimal notation (no other number is needed below), \<open>JFun\<close> a function together
  with its source text (what \<open>toString\<close> returns for it), \<open>JObj\<close> a plain object as the list
  of its own enumerable properties in enumeration order (the order \<open>for .. in\<close> and
  \<open>Object.keys\<close> deliver: the array indices first, in ascending order, then the other keys
  in the order of their creation), with \<open>Object.prototype\<close> as its prototype. The keys of an
  object are distinct; the theorems that need it say so.
\<close>

datatype jsval =
    JUndefined
  | JNull
  | JBool bool
  | JNum int
  | JStr string
  | JFun string
  | JArr "jsval list"
  | JObj "(string \<times> jsval) list"

text \<open>What a \<open>throw\<close> delivers: a \<open>TypeError\<close> of the runtime, or \<open>new Error(message)\<close>.\<close>

datatype exn = TypeError | Error string

type_synonym props = "(string \<times> jsval) list"

definition obj_get :: "(string \<times> 'a) list \<Rightarrow> string \<Rightarrow> 'a option" where
  "obj_get obj k = map_of obj k"

text \<open>An own property as a value: \<open>undefined\<close> when the object has no such property.\<close>

definition own_prop :: "props \<Rightarrow> string \<Rightarrow> jsval" where
  "own_prop obj k = (case obj_get obj k of None \<Rightarrow> JUndefined | Some v \<Rightarrow> v)"

text \<open>
  What a plain object inherits: the members of \<open>Object.prototype\<close>, which are functions, and
  the accessor \<open>__proto__\<close>, which gives \<open>Object.prototype\<close> itself, an object without
  enumerable properties.
\<close>

definition object_prototype :: "string \<Rightarrow> jsval option" where
  "object_prototype k =
     (if k = ''constructor'' then Some (JFun ''function Object() { [native code] }'')
      else if k \<in> set [''toString'', ''toLocaleString'', ''valueOf'', ''hasOwnProperty'',
                        ''isPrototypeOf'', ''propertyIsEnumerable'', ''__defineGetter__'',
                        ''__defineSetter__'', ''__lookupGetter__'', ''__lookupSetter__'']
        then Some (JFun (''function '' @ k @ ''() { [native code] }''))
      else if k = ''__proto__'' then Some (JObj [])
      else None)"

text \<open>
  The read \<open>obj[k]\<close> on a plain object: the own property when there is one, else what the
  prototype chain gives, else \<open>undefined\<close>.
\<close>

definition get_prop :: "props \<Rightarrow> string \<Rightarrow> jsval" where
  "get_prop obj k =
     (case obj_get obj k of
        Some v \<Rightarrow> v
      | None \<Rightarrow> (case object_prototype k of Some m \<Rightarrow> m | None \<Rightarrow> JUndefined))"

text \<open>
  The array indices among the keys: the canonical decimal strings of the integers below
  \<open>2^32 - 1\<close>.
\<close>

definition digit :: "char \<Rightarrow> nat option" where
  "digit c =
     map_of [(CHR ''0'', 0), (CHR ''1'', 1), (CHR ''2'', 2), (CHR ''3'', 3), (CHR ''4'', 4),
             (CHR ''5'', 5), (CHR ''6'', 6), (CHR ''7'', 7), (CHR ''8'', 8), (CHR ''9'', 9)] c"

fun digits_value :: "string \<Rightarrow> nat \<Rightarrow> nat option" where
  "digits_value [] acc = Some acc"
| "digits_value (c # cs) acc =
     (case digit c of None \<Rightarrow> None | Some d \<Rightarrow> digits_value cs (10 * acc + d))"

definition array_index :: "string \<Rightarrow> nat option" where
  "array_index k =
     (if k = [] \<or> (hd k = CHR ''0'' \<and> k \<noteq> ''0'') then None
      else (case digits_value k 0 of
              None \<Rightarrow> None
            | Some n \<Rightarrow> if n < 4294967295 then Some n else None))"

text \<open>A new array index goes before the first key that is no smaller array index.\<close>

fun insert_index :: "nat \<Rightarrow> string \<Rightarrow> 'a \<Rightarrow> (string \<times> 'a) list \<Rightarrow> (string \<times> 'a) list" where
  "insert_index n k v [] = [(k, v)]"
| "insert_index n k v (p # ps) =
     (case array_index (fst p) of
        None \<Rightarrow> (k, v) # p # ps
      | Some m \<Rightarrow> if m < n then p # insert_index n k v ps else (k, v) # p # ps)"

text \<open>
  The write \<open>obj[k] = v\<close>: an existing property keeps its place in the enumeration order
  (\<open>AList.update\<close>); a new one goes among the array indices when it is one, and to the end
  otherwise.
\<close>

definition obj_set :: "string \<Rightarrow> 'a \<Rightarrow> (string \<times> 'a) list \<Rightarrow> (string \<times> 'a) list" where
  "obj_set k v obj =
     (if k \<in> fst ` set obj then AList.update k v obj
      else (case array_index k of
              None \<Rightarrow> obj @ [(k, v)]
            | Some n \<Rightarrow> insert_index n k v obj))"

definition truthy :: "jsval \<Rightarrow> bool" where
  "truthy v = (case v of
      JUndefined \<Rightarrow> False
    | JNull \<Rightarrow> False
    | JBool b \<Rightarrow> b
    | JNum n \<Rightarrow> n \<noteq> 0
    | JStr s \<Rightarrow> s \<noteq> []
    | _ \<Rightarrow> True)"

text \<open>lodash: \<open>isFunction\<close>, \<open>isString\<close>, and \<open>isObject\<close> (objects, arrays and functions).\<close>

definition isFunction :: "jsval \<Rightarrow> bool" where
  "isFunction v = (case v of JFun _ \<Rightarrow> True | _ \<Rightarrow> False)"

definition isString :: "jsval \<Rightarrow> bool" where
  "isString v = (case v of JStr _ \<Rightarrow> True | _ \<Rightarrow> False)"

definition isObject :: "jsval \<Rightarrow> bool" where
  "isObject v = (case v of JFun _ \<Rightarrow> True | JArr _ \<Rightarrow> True | JObj _ \<Rightarrow> True | _ \<Rightarrow> False)"

subsection \<open>String forms\<close>

function show_nat :: "nat \<Rightarrow> string" where
  "show_nat n =
     (if n < 10 then [''0123456789'' ! n]
      else show_nat (n div 10) @ [''0123456789'' ! (n mod 10)])"
  by pat_completeness auto
termination
  by (relation "measure id") auto

declare show_nat.simps [simp del]

definition show_int :: "int \<Rightarrow> string" where
  "show_int i = (if i < 0 then ''-'' @ show_nat (nat (- i)) else show_nat (nat i))"

fun join_comma :: "string list \<Rightarrow> string" where
  "join_comma [] = []"
| "join_comma [s] = s"
| "join_comma (s # t # ts) = s @ '','' @ join_comma (t # ts)"

text \<open>
  The string form of a value (\<open>String(v)\<close>, also what \<open>'..' + v\<close> appends): an array joins
  the forms of its elements with commas, \<open>null\<close> and \<open>undefined\<close> elements giving the empty
  string.
\<close>

fun to_string :: "jsval \<Rightarrow> string" where
  "to_string JUndefined = ''undefined''"
| "to_string JNull = ''null''"
| "to_string (JBool b) = (if b then ''true'' else ''false'')"
| "to_string (JNum n) = show_int n"
| "to_string (JStr s) = s"
| "to_string (JFun src) = src"
| "to_string (JArr xs) =
     join_comma (map (\<lambda>x. if x = JUndefined \<or> x = JNull then [] else to_string x) xs)"
| "to_string (JObj kvs) = ''[object Object]''"

text \<open>
  The call \<open>v.toString()\<close>. Reading a property of \<open>null\<close> or \<open>undefined\<close> raises a
  \<open>TypeError\<close>, and so does calling a \<open>toString\<close> that is not a function, which an object can
  have as a property of its own. A function that an object has as its own \<open>toString\<close> is code
  of the caller, which is not run here: the form that \<open>Object.prototype.toString\<close> gives
  stands for its result.
\<close>

definition toString :: "jsval \<Rightarrow> exn + string" where
  "toString v =
     (case v of
        JNull \<Rightarrow> Inl TypeError
      | JUndefined \<Rightarrow> Inl TypeError
      | JObj kvs \<Rightarrow> if isFunction (get_prop kvs ''toString'') then Inr (to_string v)
                     else Inl TypeError
      | _ \<Rightarrow> Inr (to_string v))"

text \<open>
  The own enumerable properties that \<open>for (var attr in name)\<close> and \<open>util.extend\<close> see: the
  properties of an object, the indices of an array, none for a function.
\<close>

definition own_props :: "jsval \<Rightarrow> props" where
  "own_props v = (case v of
      JObj kvs \<Rightarrow> kvs
    | JArr xs \<Rightarrow> zip (map show_nat [0..<length xs]) xs
    | _ \<Rightarrow> [])"

section \<open>The facade\<close>

text \<open>An instance of \<open>Anchor\<close>: the field \<open>data\<close> (\<open>fn\<close> is set only on the path that throws).\<close>

record facade =
  data :: jsval

text \<open>The constructor \<open>Anchor\<close>, lines 25 to 33.\<close>

definition Anchor :: "jsval \<Rightarrow> exn + facade" where
  "Anchor entity =
     (if isFunction entity then Inl (Error ''Anchor does not support functions yet!'')
      else Inr \<lparr>data = entity\<rparr>)"

text \<open>
  The exported function, lines 15 to 17: \<open>new Anchor(entity)\<close>. Lines 282, 333 and 354 call it
  under the name \<open>anchor\<close>, which index.js never declares.

  Modelled from the spec: the binding of the identifier \<open>anchor\<close> in index.js, missing from the
  file. The spec has the Validator run each attribute through the schema facade and merge the
  custom types into the registry through the facade's \<open>define\<close>, so \<open>anchor\<close> is this module's
  export and \<open>anchor.define\<close> is \<open>define\<close> below.
\<close>

definition anchor :: "jsval \<Rightarrow> exn + facade" where
  "anchor entity = Anchor entity"

subsection \<open>\<open>define\<close>\<close>






subsection \<open>\<open>to\<close>\<close>

text \<open>
  \<open>Anchor.match\<close> is \<open>lib/match.js\<close>, outside index.js: its two entry points are parameters.
  Each gives the violations it found, of any type \<open>'e\<close>, or throws.
\<close>

record 'e matcher =
  match_type :: "jsval \<Rightarrow> jsval \<Rightarrow> exn + 'e list"
  match_rule :: "jsval \<Rightarrow> string \<Rightarrow> jsval \<Rightarrow> exn + 'e list"

text \<open>What one key of the ruleset contributes (the body of the loop, lines 58 to 68).\<close>

definition rule_errors :: "'e matcher \<Rightarrow> jsval \<Rightarrow> string \<times> jsval \<Rightarrow> exn + 'e list" where
  "rule_errors M d kv =
     (if fst kv = ''type'' then match_type M d (snd kv)
      else match_rule M d (fst kv) (snd kv))"

text \<open>The loop \<open>for (var rule in ruleset)\<close> of line 56, on the keys still to visit.\<close>

fun to_loop :: "'e matcher \<Rightarrow> jsval \<Rightarrow> props \<Rightarrow> 'e list \<Rightarrow> exn + 'e list" where
  "to_loop M d [] errors = Inr errors"
| "to_loop M d (kv # rest) errors =
     (case rule_errors M d kv of
        Inl e \<Rightarrow> Inl e
      | Inr es \<Rightarrow> to_loop M d rest (errors @ es))"

text \<open>
  \<open>Anchor.prototype.to\<close>, lines 47 to 79: \<open>None\<close> is the \<open>false\<close> returned when there is no
  error, \<open>Some errors\<close> the list returned otherwise.
\<close>

definition Anchor_to :: "'e matcher \<Rightarrow> facade \<Rightarrow> props \<Rightarrow> exn + 'e list option" where
  "Anchor_to M this ruleset =
     (case to_loop M (data this) ruleset [] of
        Inl e \<Rightarrow> Inl e
      | Inr errors \<Rightarrow> if length errors \<noteq> 0 then Inr (Some errors) else Inr None)"

section \<open>The Validator\<close>

text \<open>\<open>this.validations\<close>: an object from attribute names to rulesets.\<close>

type_synonym validations = "(string \<times> props) list"

subsection \<open>\<open>initialize\<close>\<close>





subsection \<open>\<open>validate\<close>\<close>

text \<open>What the callback receives: nothing, or \<open>{ ValidationError: errors }\<close>.\<close>

datatype 'e cbarg = NoArg | ValidationError "(string \<times> 'e list) list"

text \<open>
  The state of one call of \<open>validate\<close>: the object \<open>errors\<close> of line 317, the counter
  \<open>completed\<close> of \<open>async.each\<close>, and the calls of the callback made so far, each with the
  function called and its argument.
\<close>

record 'e vstate =
  errors :: "(string \<times> 'e list) list"
  completed :: nat
  calls :: "(jsval \<times> 'e cbarg) list"

text \<open>\<open>_.uniq\<close> and \<open>_.intersection\<close> of underscore, on two arrays.\<close>

definition uniq :: "'a list \<Rightarrow> 'a list" where
  "uniq xs = fold (\<lambda>x seen. if x \<in> set seen then seen else seen @ [x]) xs []"

definition intersection :: "'a list \<Rightarrow> 'a list \<Rightarrow> 'a list" where
  "intersection array other = filter (\<lambda>item. item \<in> set other) (uniq array)"

text \<open>
  The attributes to check, lines 318 to 327: \<open>values\<close> is the bag, an object; \<open>presentOnly\<close>
  the second argument, whatever it is.
\<close>

definition selected :: "validations \<Rightarrow> props \<Rightarrow> jsval \<Rightarrow> string list" where
  "selected V values presentOnly =
     (if isFunction presentOnly then map fst V
      else if truthy presentOnly then intersection (map fst V) (map fst values)
      else map fst V)"

text \<open>The callback in force after line 323.\<close>

definition callback_of :: "jsval \<Rightarrow> jsval \<Rightarrow> jsval" where
  "callback_of presentOnly cb = (if isFunction presentOnly then presentOnly else cb)"

text \<open>Lines 349 to 351: whether the manual check of a required boolean returns early.\<close>

definition boolean_accepted :: "props \<Rightarrow> jsval \<Rightarrow> exn + bool" where
  "boolean_accepted curValidation v =
     (if truthy (get_prop curValidation ''required'')
         \<and> get_prop curValidation ''type'' = JStr ''boolean'' then
        (case toString v of
           Inl e \<Rightarrow> Inl e
         | Inr s \<Rightarrow> Inr (s = ''true'' \<or> s = ''false''))
      else Inr False)"

text \<open>Lines 354 to 360: the check through the facade, then the callback \<open>cb\<close> of the item.\<close>

definition validate_with_anchor ::
  "'e matcher \<Rightarrow> facade \<Rightarrow> jsval \<Rightarrow> string \<Rightarrow> ('e vstate \<Rightarrow> exn + 'e vstate)
     \<Rightarrow> 'e vstate \<Rightarrow> exn + 'e vstate" where
  "validate_with_anchor M requirements v validation cb st =
     (case anchor v of
        Inl e \<Rightarrow> Inl e
      | Inr a \<Rightarrow>
          (case Anchor_to M a (own_props (data requirements)) of
             Inl e \<Rightarrow> Inl e
           | Inr None \<Rightarrow> cb st
           | Inr (Some err) \<Rightarrow> cb (st\<lparr>errors := obj_set validation err (errors st)\<rparr>)))"

text \<open>
  The read \<open>self.validations[validation]\<close> of line 330: the ruleset of the attribute, and for
  a name that is no attribute what the prototype chain of the object gives.
\<close>

definition validation_of :: "validations \<Rightarrow> string \<Rightarrow> jsval" where
  "validation_of V k =
     (case obj_get V k of
        Some ruleset \<Rightarrow> JObj ruleset
      | None \<Rightarrow> (case object_prototype k of Some m \<Rightarrow> m | None \<Rightarrow> JUndefined))"

text \<open>
  The inner function \<open>validate(validation, cb)\<close>, lines 329 to 361, in continuation style:
  every \<open>return cb()\<close> is a call of \<open>cb\<close> on the state reached. \<open>curValidation\<close> is an object,
  or a function, on which \<open>anchor\<close> throws, or \<open>undefined\<close>, on which the read of \<open>required\<close>
  raises a \<open>TypeError\<close>. The value is read by \<open>values[validation]\<close>, through the prototype
  chain of the bag.
\<close>

definition validate_inner ::
  "'e matcher \<Rightarrow> validations \<Rightarrow> props \<Rightarrow> string \<Rightarrow> ('e vstate \<Rightarrow> exn + 'e vstate)
     \<Rightarrow> 'e vstate \<Rightarrow> exn + 'e vstate" where
  "validate_inner M V values validation cb st =
     (case anchor (validation_of V validation) of
        Inl e \<Rightarrow> Inl e
      | Inr requirements \<Rightarrow>
          (case validation_of V validation of
             JObj curValidation \<Rightarrow>
               (let v = (if get_prop values validation = JUndefined then JNull
                         else get_prop values validation)
                in if \<not> truthy (get_prop curValidation ''required'')
                      \<and> (v = JNull \<or> v = JStr []) then cb st
                   else if get_prop curValidation ''type'' = JStr ''text'' then cb st
                   else (case boolean_accepted curValidation v of
                           Inl e \<Rightarrow> Inl e
                         | Inr True \<Rightarrow> cb st
                         | Inr False \<Rightarrow> validate_with_anchor M requirements v validation cb st))
           | _ \<Rightarrow> Inl TypeError))"

text \<open>
  \<open>async.each(arr, iterator, callback)\<close> of the async library: the iterator runs on every
  item in turn, each with a callback that counts the item as completed and calls \<open>callback\<close>
  once the count reaches the length of the array; on an empty array \<open>callback\<close> is called at
  once.
\<close>

definition item_done ::
  "nat \<Rightarrow> ('e vstate \<Rightarrow> exn + 'e vstate) \<Rightarrow> 'e vstate \<Rightarrow> exn + 'e vstate" where
  "item_done n callback st =
     (let st' = st\<lparr>completed := completed st + 1\<rparr>
      in if n \<le> completed st' then callback st' else Inr st')"

fun each_loop ::
  "nat \<Rightarrow> (string \<Rightarrow> ('e vstate \<Rightarrow> exn + 'e vstate) \<Rightarrow> 'e vstate \<Rightarrow> exn + 'e vstate)
     \<Rightarrow> ('e vstate \<Rightarrow> exn + 'e vstate) \<Rightarrow> string list \<Rightarrow> 'e vstate \<Rightarrow> exn + 'e vstate" where
  "each_loop n iterator callback [] st = Inr st"
| "each_loop n iterator callback (x # xs) st =
     (case iterator x (item_done n callback) st of
        Inl e \<Rightarrow> Inl e
      | Inr st' \<Rightarrow> each_loop n iterator callback xs st')"

definition async_each ::
  "string list \<Rightarrow> (string \<Rightarrow> ('e vstate \<Rightarrow> exn + 'e vstate) \<Rightarrow> 'e vstate \<Rightarrow> exn + 'e vstate)
     \<Rightarrow> ('e vstate \<Rightarrow> exn + 'e vstate) \<Rightarrow> 'e vstate \<Rightarrow> exn + 'e vstate" where
  "async_each arr iterator callback st =
     (if length arr = 0 then callback st
      else each_loop (length arr) iterator callback arr st)"

text \<open>A call \<open>cb(arg)\<close>: recorded when \<open>cb\<close> is a function, a \<open>TypeError\<close> otherwise.\<close>

definition invoke :: "jsval \<Rightarrow> 'e cbarg \<Rightarrow> 'e vstate \<Rightarrow> exn + 'e vstate" where
  "invoke cb arg st =
     (if isFunction cb then Inr (st\<lparr>calls := calls st @ [(cb, arg)]\<rparr>) else Inl TypeError)"

text \<open>The function given to \<open>async.each\<close>, lines 364 to 367.\<close>

definition finish :: "jsval \<Rightarrow> 'e vstate \<Rightarrow> exn + 'e vstate" where
  "finish cb st =
     (if length (errors st) = 0 then invoke cb NoArg st
      else invoke cb (ValidationError (errors st)) st)"

text \<open>
  \<open>Validator.prototype.validate\<close>, lines 315 to 369. The result is the exception that leaves
  the call, or the calls of the callback it made.
\<close>

definition validate ::
  "'e matcher \<Rightarrow> validations \<Rightarrow> props \<Rightarrow> jsval \<Rightarrow> jsval \<Rightarrow> exn + (jsval \<times> 'e cbarg) list" where
  "validate M V values presentOnly cb =
     (case async_each (selected V values presentOnly) (validate_inner M V values)
             (finish (callback_of presentOnly cb)) \<lparr>errors = [], completed = 0, calls = []\<rparr> of
        Inl e \<Rightarrow> Inl e
      | Inr st \<Rightarrow> Inr (calls st))"

text \<open>
  What the inner function does to the error map before it calls \<open>cb\<close>: nothing (\<open>None\<close>), or
  \<open>errors[validation] = err\<close>. It is \<open>validate_inner\<close> without the continuation, and is
  related to it by \<open>validate_inner_outcome\<close> below.
\<close>

definition outcome :: "'e matcher \<Rightarrow> validations \<Rightarrow> props \<Rightarrow> string \<Rightarrow> exn + 'e list option" where
  "outcome M V values validation =
     (case anchor (validation_of V validation) of
        Inl e \<Rightarrow> Inl e
      | Inr requirements \<Rightarrow>
          (case validation_of V validation of
             JObj curValidation \<Rightarrow>
               (let v = (if get_prop values validation = JUndefined then JNull
                         else get_prop values validation)
                in if \<not> truthy (get_prop curValidation ''required'')
                      \<and> (v = JNull \<or> v = JStr []) then Inr None
                   else if get_prop curValidation ''type'' = JStr ''text'' then Inr None
                   else (case boolean_accepted curValidation v of
                           Inl e \<Rightarrow> Inl e
                         | Inr True \<Rightarrow> Inr None
                         | Inr False \<Rightarrow>
                             (case anchor v of
                                Inl e \<Rightarrow> Inl e
                              | Inr a \<Rightarrow> Anchor_to M a curValidation)))
           | _ \<Rightarrow> Inl TypeError))"

text \<open>The inner function run alone: on an empty error map, with a callback that does nothing.\<close>

definition check_attr :: "'e matcher \<Rightarrow> validations \<Rightarrow> props \<Rightarrow> string \<Rightarrow> exn + 'e vstate" where
  "check_attr M V values validation =
     validate_inner M V values validation Inr \<lparr>errors = [], completed = 0, calls = []\<rparr>"

section \<open>The Matcher\<close>

text \<open>
  Modelled from the spec: \<open>lib/match.js\<close>, the deep match that \<open>Anchor.match\<close> requires, is
  missing from the sources. The definitions of this section follow section 4.2 of the
  specification, with the data model of its section 3.
\<close>

datatype segment = Attr string | Index nat

text \<open>A ValidationError: the rule, the value at the point of failure, the path to it.\<close>

datatype violation = Violation (vrule: string) (vvalue: jsval) (vpath: "segment list")

text \<open>
  A descriptor nested in another one is held by reference, as an object is in JavaScript: the
  address of a descriptor in a table of schemas. A schema can then be nested in itself. A
  RuleSet is the list of its keys in declaration order, the key \<open>type\<close> holding a descriptor
  and any other key the argument of a rule.
\<close>

type_synonym addr = nat

datatype entry = TypeKey addr | RuleKey string jsval

datatype descriptor =
    Primitive string
  | ArrayOf addr
  | ObjectSchema "(string \<times> entry list) list"
  | Any

definition tag :: "segment \<Rightarrow> violation \<Rightarrow> violation" where
  "tag s e = Violation (vrule e) (vvalue e) (s # vpath e)"

text \<open>
  Modelled from the spec: \<open>match(value, descriptor, depth, maxDepth)\<close>, steps 1 to 4 of section
  4.2, and the match of a full RuleSet, step 5: the errors of the \<open>type\<close> key first, then those
  of the rules in declaration order. Step 1 holds for both: beyond \<open>maxDepth\<close> the match is
  satisfied, so the RuleSet of an attribute that lies beyond the cap reports nothing, neither
  for its type nor for its rules. \<open>R\<close> is the TypeRegistry, resolving a name to its leaf
  predicate (every name in a schema is registered, by the invariant of section 3); \<open>E\<close> is the
  RuleEvaluator, \<open>E value rule arg\<close> telling whether the value passes; \<open>H\<close> is the table of
  schemas. An attribute that the value does not have is matched as \<open>undefined\<close>.
\<close>

function match ::
  "(string \<Rightarrow> jsval \<Rightarrow> bool) \<Rightarrow> (jsval \<Rightarrow> string \<Rightarrow> jsval \<Rightarrow> bool) \<Rightarrow> (addr \<Rightarrow> descriptor)
     \<Rightarrow> jsval \<Rightarrow> descriptor \<Rightarrow> nat \<Rightarrow> nat \<Rightarrow> violation list"
and match_ruleset ::
  "(string \<Rightarrow> jsval \<Rightarrow> bool) \<Rightarrow> (jsval \<Rightarrow> string \<Rightarrow> jsval \<Rightarrow> bool) \<Rightarrow> (addr \<Rightarrow> descriptor)
     \<Rightarrow> jsval \<Rightarrow> entry list \<Rightarrow> nat \<Rightarrow> nat \<Rightarrow> violation list"
where
  "match R E H v d depth maxDepth =
     (if maxDepth < depth then []
      else (case d of
          Primitive name \<Rightarrow> if R name v then [] else [Violation ''type'' v []]
        | ArrayOf a \<Rightarrow>
            (case v of
               JArr xs \<Rightarrow>
                 concat (map (\<lambda>(i, x). map (tag (Index i))
                                (match R E H x (H a) (depth + 1) maxDepth))
                          (zip [0..<length xs] xs))
             | _ \<Rightarrow> [Violation ''type'' v []])
        | ObjectSchema attrMap \<Rightarrow>
            (case v of
               JObj kvs \<Rightarrow>
                 concat (map (\<lambda>(attr, rs). map (tag (Attr attr))
                                (match_ruleset R E H (own_prop kvs attr) rs (depth + 1) maxDepth))
                          attrMap)
             | _ \<Rightarrow> [Violation ''type'' v []])
        | Any \<Rightarrow> []))"
| "match_ruleset R E H v rs depth maxDepth =
     (if maxDepth < depth then []
      else concat (map (\<lambda>e. case e of
                              TypeKey a \<Rightarrow> match R E H v (H a) depth maxDepth
                            | RuleKey n arg \<Rightarrow> []) rs)
           @ concat (map (\<lambda>e. case e of
                                 TypeKey a \<Rightarrow> []
                               | RuleKey n arg \<Rightarrow>
                                   if E v n arg then [] else [Violation n v []]) rs))"
  by pat_completeness auto
termination
  by (relation "measure (\<lambda>x. case x of
            Inl (R, E, H, v, d, depth, maxDepth) \<Rightarrow> 2 * (maxDepth + 1 - depth)
          | Inr (R, E, H, v, rs, depth, maxDepth) \<Rightarrow> 2 * (maxDepth + 1 - depth) + 1)") auto

declare match.simps [simp del] match_ruleset.simps [simp del]

subsection \<open>A small registry, for examples\<close>

text \<open>Three leaf types and three rules in the manner of \<open>lib/rules\<close>, used in the examples.\<close>

definition sample_types :: "string \<Rightarrow> jsval \<Rightarrow> bool" where
  "sample_types name v =
     (if name = ''string'' then isString v
      else if name = ''integer'' then (case v of JNum _ \<Rightarrow> True | _ \<Rightarrow> False)
      else if name = ''boolean'' then (case v of JBool _ \<Rightarrow> True | _ \<Rightarrow> False)
      else False)"

definition sample_rules :: "jsval \<Rightarrow> string \<Rightarrow> jsval \<Rightarrow> bool" where
  "sample_rules v name arg =
     (if name = ''required'' then v \<noteq> JNull \<and> v \<noteq> JUndefined \<and> v \<noteq> JStr []
      else if name = ''min'' then (case (v, arg) of (JNum n, JNum m) \<Rightarrow> m \<le> n | _ \<Rightarrow> False)
      else if name = ''in'' then (case arg of JArr xs \<Rightarrow> v \<in> set xs | _ \<Rightarrow> False)
      else True)"

text \<open>The two entry points of the matcher over this registry, on type names.\<close>

definition sample_matcher :: "violation matcher" where
  "sample_matcher =
     \<lparr>match_type = (\<lambda>v t. Inr (match sample_types sample_rules (\<lambda>a. Any) v
                                 (case t of JStr name \<Rightarrow> Primitive name | _ \<Rightarrow> Any) 0 50)),
      match_rule = (\<lambda>v n arg. Inr (if sample_rules v n arg then [] else [Violation n v []]))\<rparr>"

text \<open>A schema of list nodes that is nested in itself, and a chain of three nodes.\<close>

definition node_schemas :: "addr \<Rightarrow> descriptor" where
  "node_schemas a =
     (if a = 0 then ObjectSchema [(''label'', [TypeKey 1]), (''next'', [TypeKey 0])]
      else Primitive ''string'')"

definition chain :: jsval where
  "chain =
     JObj [(''label'', JNum 1),
           (''next'', JObj [(''label'', JNum 2), (''next'', JObj [(''label'', JNum 3)])])]"

section \<open>The specification's words\<close>

text \<open>
  The order of errors as the specification states it for \<open>to\<close>: the call gives what it gives
  on the ruleset with the \<open>type\<close> key moved to the front, the other keys keeping their
  declaration order.
\<close>

definition type_errors_first :: "'e matcher \<Rightarrow> facade \<Rightarrow> props \<Rightarrow> bool" where
  "type_errors_first M this ruleset \<longleftrightarrow>
     Anchor_to M this ruleset
       = Anchor_to M this (filter (\<lambda>kv. fst kv = ''type'') ruleset
                           @ filter (\<lambda>kv. fst kv \<noteq> ''type'') ruleset)"



section \<open>Properties\<close>

subsection \<open>Objects\<close>

lemma map_of_insert_index:
  "k \<notin> fst ` set obj \<Longrightarrow> map_of (insert_index n k v obj) = (map_of obj)(k \<mapsto> v)"
  by (induction obj) (auto simp: fun_eq_iff split: option.splits)

lemma set_insert_index: "set (insert_index n k v obj) = insert (k, v) (set obj)"
  by (induction obj) (auto split: option.splits)

lemma distinct_insert_index:
  "k \<notin> fst ` set obj \<Longrightarrow> distinct (map fst obj) \<Longrightarrow> distinct (map fst (insert_index n k v obj))"
  by (induction obj) (auto simp: set_insert_index split: option.splits)

lemma map_of_obj_set: "map_of (obj_set k v obj) = (map_of obj)(k \<mapsto> v)"
proof (cases "k \<in> fst ` set obj")
  case True
  then show ?thesis by (simp add: obj_set_def update_conv')
next
  case False
  then have "map_of obj k = None"
    by (simp add: map_of_eq_None_iff)
  then have "map_of (obj @ [(k, v)]) = (map_of obj)(k \<mapsto> v)"
    by (auto simp: fun_eq_iff map_add_def split: option.splits)
  then show ?thesis using False
    by (simp add: obj_set_def map_of_insert_index split: option.splits)
qed

lemma keys_obj_set: "fst ` set (obj_set k v obj) = insert k (fst ` set obj)"
proof -
  have "fst ` set (obj_set k v obj) = dom (map_of (obj_set k v obj))"
    by (simp add: dom_map_of_conv_image_fst)
  also have "\<dots> = insert k (dom (map_of obj))"
    by (simp add: map_of_obj_set)
  finally show ?thesis by (simp add: dom_map_of_conv_image_fst)
qed

lemma distinct_obj_set: "distinct (map fst obj) \<Longrightarrow> distinct (map fst (obj_set k v obj))"
  by (auto simp: obj_set_def distinct_update distinct_insert_index split: option.splits)

lemma obj_set_Nil: "obj_set k v [] = [(k, v)]"
  by (simp add: obj_set_def split: option.splits)

subsection \<open>The constructor\<close>

text \<open>
  C10. For every entity that is a function, \<open>anchor(entity)\<close> throws an Error and returns no
  facade; for every other entity it returns a facade whose field \<open>data\<close> is the entity.
\<close>

theorem anchor_function_or_data:
  "(isFunction entity \<longrightarrow> anchor entity = Inl (Error ''Anchor does not support functions yet!''))
   \<and> (\<not> isFunction entity \<longrightarrow> anchor entity = Inr \<lparr>data = entity\<rparr>)"
  by (simp add: anchor_def Anchor_def)

theorem anchor_function_or_data_witness:
  "isFunction (JFun ''function () {}'')
   \<and> anchor (JFun ''function () {}'') = Inl (Error ''Anchor does not support functions yet!'')
   \<and> \<not> isFunction (JArr [JNum 1, JStr ''a''])
   \<and> anchor (JArr [JNum 1, JStr ''a'']) = Inr \<lparr>data = JArr [JNum 1, JStr ''a'']\<rparr>"
  using anchor_function_or_data [of "JFun ''function () {}''"]
        anchor_function_or_data [of "JArr [JNum 1, JStr ''a'']"]
  by (simp add: isFunction_def)

subsection \<open>\<open>define\<close>\<close>







subsection \<open>The order of the errors of \<open>to\<close>\<close>

lemma to_loop_concat:
  "\<forall>kv \<in> set ruleset. rule_errors M d kv = Inr (f kv) \<Longrightarrow>
     to_loop M d ruleset acc = Inr (acc @ concat (map f ruleset))"
  by (induction ruleset arbitrary: acc) simp_all

text \<open>
  C2, the claim as stated: on the ruleset \<open>{min: 0, type: 'integer'}\<close> and the value \<open>'x'\<close>
  the error of \<open>min\<close> comes before the error of \<open>type\<close>.
\<close>

theorem to_type_not_first_counterexample:
  "Anchor_to sample_matcher \<lparr>data = JStr ''x''\<rparr> [(''min'', JNum 0), (''type'', JStr ''integer'')]
     = Inr (Some [Violation ''min'' (JStr ''x'') [], Violation ''type'' (JStr ''x'') []])
   \<and> \<not> type_errors_first sample_matcher \<lparr>data = JStr ''x''\<rparr>
         [(''min'', JNum 0), (''type'', JStr ''integer'')]"
  by (simp add: type_errors_first_def Anchor_to_def rule_errors_def sample_matcher_def
      sample_rules_def sample_types_def match.simps isString_def)

text \<open>
  C2, amended. The violation sequence that \<open>to\<close> returns lists the errors of the keys of the
  ruleset in declaration order, the errors of the \<open>type\<close> key at the place where \<open>type\<close> is
  declared; they come first when \<open>type\<close> is the first key of the ruleset.
\<close>

theorem to_declaration_order:
  "((\<forall>kv \<in> set ruleset. rule_errors M (data this) kv = Inr (f kv)) \<longrightarrow>
      Anchor_to M this ruleset
        = Inr (if concat (map f ruleset) = [] then None else Some (concat (map f ruleset))))
   \<and> (''type'' \<notin> fst ` set rest \<longrightarrow> type_errors_first M this ((''type'', t) # rest))"
proof (intro conjI impI)
  assume "\<forall>kv \<in> set ruleset. rule_errors M (data this) kv = Inr (f kv)"
  then have "to_loop M (data this) ruleset [] = Inr ([] @ concat (map f ruleset))"
    by (rule to_loop_concat)
  then show "Anchor_to M this ruleset
        = Inr (if concat (map f ruleset) = [] then None else Some (concat (map f ruleset)))"
    by (simp add: Anchor_to_def)
next
  assume "''type'' \<notin> fst ` set rest"
  then have "filter (\<lambda>kv. fst kv = ''type'') rest = []" "filter (\<lambda>kv. fst kv \<noteq> ''type'') rest = rest"
    by (force simp: filter_empty_conv filter_id_conv)+
  then show "type_errors_first M this ((''type'', t) # rest)"
    by (simp add: type_errors_first_def)
qed

theorem to_declaration_order_witness:
  "Anchor_to sample_matcher \<lparr>data = JNum (- 1)\<rparr>
      [(''required'', JBool True), (''type'', JStr ''string''), (''min'', JNum 0)]
     = Inr (Some [Violation ''type'' (JNum (- 1)) [], Violation ''min'' (JNum (- 1)) []])
   \<and> type_errors_first sample_matcher \<lparr>data = JNum (- 1)\<rparr>
        [(''type'', JStr ''string''), (''min'', JNum 0)]"
proof -
  let ?f = "\<lambda>kv. if fst kv = ''required'' then []
                  else [Violation (fst kv) (JNum (- 1)) []]"
  have h: "\<forall>kv \<in> set [(''required'', JBool True), (''type'', JStr ''string''), (''min'', JNum 0)].
             rule_errors sample_matcher (data \<lparr>data = JNum (- 1)\<rparr>) kv = Inr (?f kv)"
    by (simp add: rule_errors_def sample_matcher_def sample_rules_def sample_types_def
        match.simps isString_def)
  have n: "''type'' \<notin> fst ` set [(''min'', JNum 0)]"
    by simp
  show ?thesis
    using to_declaration_order [of "[(''required'', JBool True), (''type'', JStr ''string''), (''min'', JNum 0)]"
        sample_matcher "\<lparr>data = JNum (- 1)\<rparr>" ?f "[(''min'', JNum 0)]" "JStr ''string''"] h n
    by simp
qed

subsection \<open>The depth bound of the deep match\<close>

lemma vpath_tag: "vpath (tag s e) = s # vpath e"
  by (simp add: tag_def)

lemma match_beyond_cap:
  "maxDepth < depth \<Longrightarrow> match R E H v d depth maxDepth = []"
  "maxDepth < depth \<Longrightarrow> match_ruleset R E H v rs depth maxDepth = []"
  by (simp_all add: match.simps match_ruleset.simps)

lemma match_path_bound:
  "(\<forall>e \<in> set (match R E H v d depth maxDepth). depth + length (vpath e) \<le> maxDepth)"
  "(\<forall>e \<in> set (match_ruleset R E H v rs depth maxDepth). depth + length (vpath e) \<le> maxDepth)"
proof (induction R E H v d depth maxDepth and R E H v rs depth maxDepth
    rule: match_match_ruleset.induct)
  case (1 R E H v d depth maxDepth)
  show ?case
  proof (cases "maxDepth < depth")
    case True
    then show ?thesis by (simp add: match.simps)
  next
    case False
    show ?thesis
    proof (cases d)
      case (Primitive name)
      then show ?thesis using False by (simp add: match.simps)
    next
      case (ArrayOf a)
      show ?thesis
      proof (cases v)
        case (JArr xs)
        have "\<forall>e \<in> set (match R E H x (H a) (depth + 1) maxDepth).
                depth + 1 + length (vpath e) \<le> maxDepth"
          if "(i, x) \<in> set (zip [0..<length xs] xs)" for i x
          using "1.IH"(1) [OF False ArrayOf JArr that refl] .
        then show ?thesis using False ArrayOf JArr
          by (subst match.simps) (fastforce simp: vpath_tag)
      qed (use False ArrayOf in \<open>simp_all add: match.simps\<close>)
    next
      case (ObjectSchema attrMap)
      show ?thesis
      proof (cases v)
        case (JObj kvs)
        have "\<forall>e \<in> set (match_ruleset R E H (own_prop kvs attr) rs (depth + 1) maxDepth).
                depth + 1 + length (vpath e) \<le> maxDepth"
          if "(attr, rs) \<in> set attrMap" for attr rs
          using "1.IH"(2) [OF False ObjectSchema JObj that refl] .
        then show ?thesis using False ObjectSchema JObj
          by (subst match.simps) (fastforce simp: vpath_tag)
      qed (use False ObjectSchema in \<open>simp_all add: match.simps\<close>)
    next
      case Any
      then show ?thesis using False by (simp add: match.simps)
    qed
  qed
next
  case (2 R E H v rs depth maxDepth)
  show ?case
  proof (cases "maxDepth < depth")
    case True
    then show ?thesis by (simp add: match_ruleset.simps)
  next
    case False
    have t: "\<forall>e \<in> set (case x of TypeKey a \<Rightarrow> match R E H v (H a) depth maxDepth
                                  | RuleKey n arg \<Rightarrow> []).
               depth + length (vpath e) \<le> maxDepth" if "x \<in> set rs" for x
      using "2.IH" [OF False that] by (cases x) auto
    have r: "\<forall>e \<in> set (case x of TypeKey a \<Rightarrow> []
                                  | RuleKey n arg \<Rightarrow> if E v n arg then [] else [Violation n v []]).
               depth + length (vpath e) \<le> maxDepth" for x
      using False by (cases x) auto
    show ?thesis
      using t r False by (subst match_ruleset.simps) auto
  qed
qed

text \<open>
  C3. The deep match is a total function of every value and every descriptor, also one that
  is nested in itself through the table of schemas: each call descends one level, and the
  recursion ends at depth \<open>maxDepth + 1\<close> (the termination proof of \<open>match\<close>). Once the depth
  exceeds \<open>maxDepth\<close> the match, of a descriptor or of a RuleSet, is satisfied: it reports
  nothing. So every violation that a match reports lies within the cap: the depth of the
  call plus the length of the path to the violation is at most \<open>maxDepth\<close>.
\<close>

theorem match_depth_cap:
  "(maxDepth < depth \<longrightarrow>
      match R E H v d depth maxDepth = [] \<and> match_ruleset R E H v rs depth maxDepth = [])
   \<and> (\<forall>e \<in> set (match R E H v d depth maxDepth). depth + length (vpath e) \<le> maxDepth)
   \<and> (\<forall>e \<in> set (match_ruleset R E H v rs depth maxDepth). depth + length (vpath e) \<le> maxDepth)"
  using match_path_bound [of R E H v _ depth maxDepth] match_beyond_cap [of maxDepth depth R E H v]
  by blast

theorem match_depth_cap_witness:
  "(1::nat) < 2
   \<and> match sample_types sample_rules node_schemas chain (node_schemas 0) 2 1 = []
   \<and> match_ruleset sample_types sample_rules node_schemas (JNum 7)
        [TypeKey 1, RuleKey ''min'' (JNum 10)] 1 0 = []
   \<and> match sample_types sample_rules node_schemas (JObj [(''x'', JNum 7)])
        (ObjectSchema [(''x'', [TypeKey 1, RuleKey ''min'' (JNum 10)])]) 0 0 = []
   \<and> match sample_types sample_rules node_schemas (JObj [(''x'', JNum 7)])
        (ObjectSchema [(''x'', [TypeKey 1, RuleKey ''min'' (JNum 10)])]) 0 50
       = [Violation ''type'' (JNum 7) [Attr ''x''], Violation ''min'' (JNum 7) [Attr ''x'']]
   \<and> match sample_types sample_rules node_schemas chain (node_schemas 0) 0 1
       = [Violation ''type'' (JNum 1) [Attr ''label'']]
   \<and> match sample_types sample_rules node_schemas chain (node_schemas 0) 0 50
       = [Violation ''type'' (JNum 1) [Attr ''label''],
          Violation ''type'' (JNum 2) [Attr ''next'', Attr ''label''],
          Violation ''type'' (JNum 3) [Attr ''next'', Attr ''next'', Attr ''label''],
          Violation ''type'' JUndefined [Attr ''next'', Attr ''next'', Attr ''next'']]"
proof -
  note t = match_depth_cap [of 1 2 sample_types sample_rules node_schemas chain "node_schemas 0" "[]"]
  note u = match_depth_cap [of 0 1 sample_types sample_rules node_schemas "JNum 7" Any
      "[TypeKey 1, RuleKey ''min'' (JNum 10)]"]
  have a: "match sample_types sample_rules node_schemas chain (node_schemas 0) 2 1 = []"
    using t by simp
  have a': "match_ruleset sample_types sample_rules node_schemas (JNum 7)
        [TypeKey 1, RuleKey ''min'' (JNum 10)] 1 0 = []"
    using u by simp
  have b: "match sample_types sample_rules node_schemas (JObj [(''x'', JNum 7)])
        (ObjectSchema [(''x'', [TypeKey 1, RuleKey ''min'' (JNum 10)])]) 0 0 = []"
    by code_simp
  have b': "match sample_types sample_rules node_schemas (JObj [(''x'', JNum 7)])
        (ObjectSchema [(''x'', [TypeKey 1, RuleKey ''min'' (JNum 10)])]) 0 50
       = [Violation ''type'' (JNum 7) [Attr ''x''], Violation ''min'' (JNum 7) [Attr ''x'']]"
    by code_simp
  have c: "match sample_types sample_rules node_schemas chain (node_schemas 0) 0 1
       = [Violation ''type'' (JNum 1) [Attr ''label'']]"
    by code_simp
  have d: "match sample_types sample_rules node_schemas chain (node_schemas 0) 0 50
       = [Violation ''type'' (JNum 1) [Attr ''label''],
          Violation ''type'' (JNum 2) [Attr ''next'', Attr ''label''],
          Violation ''type'' (JNum 3) [Attr ''next'', Attr ''next'', Attr ''label''],
          Violation ''type'' JUndefined [Attr ''next'', Attr ''next'', Attr ''next'']]"
    by code_simp
  show ?thesis using a a' b b' c d by simp
qed

subsection \<open>\<open>initialize\<close>\<close>








subsection \<open>The check of one attribute\<close>

lemma validate_inner_outcome:
  "validate_inner M V values a cb st =
     (case outcome M V values a of
        Inl e \<Rightarrow> Inl e
      | Inr None \<Rightarrow> cb st
      | Inr (Some err) \<Rightarrow> cb (st\<lparr>errors := obj_set a err (errors st)\<rparr>))"
proof (cases "anchor (validation_of V a)")
  case (Inl e)
  then show ?thesis by (simp add: validate_inner_def outcome_def)
next
  case (Inr requirements)
  then have r: "requirements = \<lparr>data = validation_of V a\<rparr>"
    by (auto simp: anchor_def Anchor_def split: if_splits)
  show ?thesis
  proof (cases "validation_of V a")
    case (JObj curValidation)
    then show ?thesis using Inr r
      by (simp add: validate_inner_def outcome_def validate_with_anchor_def own_props_def Let_def
          split: option.splits sum.splits bool.splits)
  qed (use Inr in \<open>simp_all add: validate_inner_def outcome_def\<close>)
qed

text \<open>
  For an attribute whose RuleSet has no \<open>required\<close>, when the read \<open>values[validation]\<close> gives
  \<open>undefined\<close> (the bag has no such property and inherits none of that name), \<open>null\<close> or the
  empty string, the inner function goes straight to its callback: the error map is left as
  it was, and neither the boolean check nor the matcher is reached.
\<close>

lemma optional_empty_skipped:
  assumes "obj_get V attr = Some curValidation"
    and "obj_get curValidation ''required'' = None"
    and "(obj_get values attr = None \<and> object_prototype attr = None)
           \<or> obj_get values attr = Some JNull \<or> obj_get values attr = Some (JStr [])"
  shows "validate_inner M V values attr cb st = cb st"
  using assms
  by (auto simp: validate_inner_def validation_of_def get_prop_def object_prototype_def truthy_def
      anchor_def Anchor_def isFunction_def)

text \<open>
  C4, at the failing input: the schema \<open>{constructor: {type: 'string'}}\<close>, an attribute
  without \<open>required\<close>, and the bag \<open>{}\<close>, from which the attribute is absent. The read
  \<open>values['constructor']\<close> gives the function that the bag inherits, not \<open>undefined\<close>: the
  value is not set to \<open>null\<close>, the check goes on to the facade, and the constructor of line 25
  throws, whatever the matcher and the callback are.
\<close>

theorem optional_inherited_name_throws:
  "validate_inner M [(''constructor'', [(''type'', JStr ''string'')])] [] ''constructor'' cb st
     = Inl (Error ''Anchor does not support functions yet!'')
   \<and> validate M [(''constructor'', [(''type'', JStr ''string'')])] [] (JBool False)
        (JFun ''function (err) {}'')
     = Inl (Error ''Anchor does not support functions yet!'')"
  by (simp add: validate_def async_each_def selected_def truthy_def
      validate_inner_def validation_of_def obj_get_def get_prop_def object_prototype_def
      anchor_def Anchor_def isFunction_def boolean_accepted_def validate_with_anchor_def)

text \<open>
  The manual check of a required boolean on a value of the bag that is no object and neither
  \<open>null\<close> nor \<open>undefined\<close>: the value is accepted when its string form is \<open>true\<close> or \<open>false\<close>,
  and goes to the matcher otherwise.
\<close>

lemma required_boolean_non_null:
  assumes "obj_get V attr = Some curValidation"
    and "truthy (get_prop curValidation ''required'')"
    and "get_prop curValidation ''type'' = JStr ''boolean''"
    and "obj_get values attr = Some v" and "v \<noteq> JNull" and "v \<noteq> JUndefined"
    and "\<not> isObject v"
  shows "validate_inner M V values attr cb st =
           (if to_string v = ''true'' \<or> to_string v = ''false'' then cb st
            else validate_with_anchor M \<lparr>data = JObj curValidation\<rparr> v attr cb st)"
  using assms
  by (cases v)
     (simp_all add: validate_inner_def validation_of_def get_prop_def anchor_def Anchor_def
       isFunction_def isObject_def boolean_accepted_def toString_def)

text \<open>
  C5, at the failing input: the schema \<open>{active: {type: 'boolean', required: true}}\<close> and
  the value \<open>null\<close>. The special case calls \<open>toString\<close> on \<open>null\<close>: the check neither accepts
  the value nor reaches the matcher, it throws a \<open>TypeError\<close>, whatever the matcher and the
  callback are.
\<close>

theorem required_boolean_null_throws:
  "validate_inner M [(''active'', [(''type'', JStr ''boolean''), (''required'', JBool True)])]
     [(''active'', JNull)] ''active'' cb st = Inl TypeError"
  by (simp add: validate_inner_def validation_of_def obj_get_def get_prop_def truthy_def
      anchor_def Anchor_def isFunction_def boolean_accepted_def toString_def)

text \<open>
  C1, at the failing input: the same schema and a bag without \<open>active\<close>. The \<open>TypeError\<close>
  leaves \<open>validate\<close>, and the callback is never called.
\<close>

theorem validate_throws_on_absent_required_boolean:
  "validate M [(''active'', [(''type'', JStr ''boolean''), (''required'', JBool True)])]
     [] (JBool False) (JFun ''function (err) {}'') = Inl TypeError"
  by (simp add: validate_def async_each_def selected_def isFunction_def truthy_def
      validate_inner_def validation_of_def obj_get_def get_prop_def object_prototype_def
      anchor_def Anchor_def boolean_accepted_def toString_def)

subsection \<open>The fan-out and the fan-in\<close>

text \<open>What the check of one attribute, run alone, leaves in the error map.\<close>

lemma check_attr_outcome:
  "check_attr M V values a =
     (case outcome M V values a of
        Inl e \<Rightarrow> Inl e
      | Inr None \<Rightarrow> Inr \<lparr>errors = [], completed = 0, calls = []\<rparr>
      | Inr (Some err) \<Rightarrow> Inr \<lparr>errors = [(a, err)], completed = 0, calls = []\<rparr>)"
  by (simp add: check_attr_def validate_inner_outcome obj_set_Nil split: sum.splits option.splits)

lemma outcome_Some_nonempty: "outcome M V values a = Inr (Some err) \<Longrightarrow> err \<noteq> []"
  by (auto simp: outcome_def Anchor_to_def Let_def
      split: option.splits if_splits sum.splits bool.splits jsval.splits)

lemma errors_check_attr:
  assumes "check_attr M V values a = Inr r"
  shows "errors r = [] \<or> (\<exists>err. err \<noteq> [] \<and> errors r = [(a, err)])"
proof (cases "outcome M V values a")
  case (Inl e)
  then show ?thesis using assms by (simp add: check_attr_outcome)
next
  case (Inr res)
  show ?thesis
  proof (cases res)
    case None
    then have "Inr r = Inr \<lparr>errors = [], completed = 0, calls = []\<rparr>"
      using assms Inr by (simp add: check_attr_outcome)
    then have "r = \<lparr>errors = [], completed = 0, calls = []\<rparr>"
      by simp
    then show ?thesis by simp
  next
    case (Some err)
    then have "err \<noteq> []"
      using Inr outcome_Some_nonempty by blast
    moreover have "Inr r = Inr \<lparr>errors = [(a, err)], completed = 0, calls = []\<rparr>"
      using assms Inr Some by (simp add: check_attr_outcome)
    then have "r = \<lparr>errors = [(a, err)], completed = 0, calls = []\<rparr>"
      by simp
    ultimately show ?thesis by simp
  qed
qed

text \<open>The error map after \<open>errors[validation] = err\<close> for what a check has found.\<close>

lemma validate_inner_check_attr:
  assumes "check_attr M V values a = Inr r"
  shows "validate_inner M V values a cb st
           = cb (st\<lparr>errors := fold (\<lambda>(k, err). obj_set k err) (errors r) (errors st)\<rparr>)"
proof (cases "outcome M V values a")
  case (Inl e)
  then show ?thesis using assms by (simp add: check_attr_outcome)
next
  case (Inr res)
  show ?thesis
  proof (cases res)
    case None
    then have "Inr r = Inr \<lparr>errors = [], completed = 0, calls = []\<rparr>"
      using assms Inr by (simp add: check_attr_outcome)
    then have "errors r = []"
      by auto
    then show ?thesis using Inr None by (simp add: validate_inner_outcome)
  next
    case (Some err)
    then have "Inr r = Inr \<lparr>errors = [(a, err)], completed = 0, calls = []\<rparr>"
      using assms Inr by (simp add: check_attr_outcome)
    then have "errors r = [(a, err)]"
      by auto
    then show ?thesis using Inr Some by (simp add: validate_inner_outcome)
  qed
qed

lemma validate_inner_throws:
  "check_attr M V values a = Inl e \<Longrightarrow> validate_inner M V values a cb st = Inl e"
  by (auto simp: check_attr_outcome validate_inner_outcome split: sum.splits option.splits)

text \<open>
  The loop of \<open>async.each\<close> over the items still to visit, when every check comes to its end:
  the callback of the whole call is reached with the last item, on an error map that holds,
  for each item, what its check has found.
\<close>

lemma each_loop_all:
  assumes "\<forall>a \<in> set items. check_attr M V values a = Inr (r a)"
    and "distinct items"
    and "completed st + length items = n"
    and "items \<noteq> []"
  shows "\<exists>E. each_loop n (validate_inner M V values) callback items st
               = (case callback (st\<lparr>errors := E, completed := n\<rparr>) of
                    Inl e \<Rightarrow> Inl e | Inr st' \<Rightarrow> Inr st')
             \<and> (\<forall>a. map_of E a = (if a \<in> set items \<and> map_of (errors (r a)) a \<noteq> None
                                    then map_of (errors (r a)) a else map_of (errors st) a))"
  using assms
proof (induction items arbitrary: st)
  case Nil
  then show ?case by simp
next
  case (Cons a items)
  have ca: "check_attr M V values a = Inr (r a)"
    using Cons.prems(1) by simp
  let ?E1 = "fold (\<lambda>(k, err). obj_set k err) (errors (r a)) (errors st)"
  let ?st1 = "st\<lparr>errors := ?E1\<rparr>"
  have step: "validate_inner M V values a (item_done n callback) st = item_done n callback ?st1"
    by (rule validate_inner_check_attr [OF ca])
  have shape: "errors (r a) = [] \<or> (\<exists>err. errors (r a) = [(a, err)])"
    using errors_check_attr [OF ca] by blast
  have m1: "map_of ?E1 b = (if b = a \<and> map_of (errors (r a)) a \<noteq> None
                            then map_of (errors (r a)) a else map_of (errors st) b)" for b
    using shape by (auto simp: map_of_obj_set)
  show ?case
  proof (cases "items = []")
    case True
    then have "n = completed st + 1"
      using Cons.prems(3) by simp
    then have "each_loop n (validate_inner M V values) callback (a # items) st
               = (case callback (st\<lparr>errors := ?E1, completed := n\<rparr>) of
                    Inl e \<Rightarrow> Inl e | Inr st' \<Rightarrow> Inr st')"
      using True step by (simp add: item_done_def split: sum.splits)
    moreover have "\<forall>b. map_of ?E1 b = (if b \<in> set (a # items) \<and> map_of (errors (r b)) b \<noteq> None
                                    then map_of (errors (r b)) b else map_of (errors st) b)"
      using m1 True by auto
    ultimately show ?thesis by blast
  next
    case False
    then have lt: "\<not> n \<le> completed st + 1"
      using Cons.prems(3) by (cases items) auto
    let ?st2 = "?st1\<lparr>completed := completed st + 1\<rparr>"
    have d: "item_done n callback ?st1 = Inr ?st2"
      using lt by (simp add: item_done_def)
    have "\<exists>E. each_loop n (validate_inner M V values) callback items ?st2
               = (case callback (?st2\<lparr>errors := E, completed := n\<rparr>) of
                    Inl e \<Rightarrow> Inl e | Inr st' \<Rightarrow> Inr st')
             \<and> (\<forall>b. map_of E b = (if b \<in> set items \<and> map_of (errors (r b)) b \<noteq> None
                                    then map_of (errors (r b)) b else map_of (errors ?st2) b))"
      using Cons.prems False by (intro Cons.IH) auto
    then obtain E where
      E: "each_loop n (validate_inner M V values) callback items ?st2
               = (case callback (?st2\<lparr>errors := E, completed := n\<rparr>) of
                    Inl e \<Rightarrow> Inl e | Inr st' \<Rightarrow> Inr st')"
      and mE: "\<And>b. map_of E b = (if b \<in> set items \<and> map_of (errors (r b)) b \<noteq> None
                                    then map_of (errors (r b)) b else map_of (errors ?st2) b)"
      by blast
    have "each_loop n (validate_inner M V values) callback (a # items) st
               = (case callback (st\<lparr>errors := E, completed := n\<rparr>) of
                    Inl e \<Rightarrow> Inl e | Inr st' \<Rightarrow> Inr st')"
      using step d E by simp
    moreover have "\<forall>b. map_of E b = (if b \<in> set (a # items) \<and> map_of (errors (r b)) b \<noteq> None
                                    then map_of (errors (r b)) b else map_of (errors st) b)"
      using mE m1 Cons.prems(2) by auto
    ultimately show ?thesis by blast
  qed
qed

text \<open>The same loop when a check throws: the exception leaves at once, the callback unreached.\<close>

lemma each_loop_throws:
  assumes "\<forall>b \<in> set pre. \<exists>st. check_attr M V values b = Inr st"
    and "check_attr M V values a = Inl e"
    and "completed st + length (pre @ a # post) = n"
  shows "each_loop n (validate_inner M V values) callback (pre @ a # post) st = Inl e"
  using assms
proof (induction pre arbitrary: st)
  case Nil
  then show ?case by (simp add: validate_inner_throws)
next
  case (Cons b pre)
  from Cons.prems(1) obtain rb where cb: "check_attr M V values b = Inr rb"
    by auto
  let ?st1 = "st\<lparr>errors := fold (\<lambda>(k, err). obj_set k err) (errors rb) (errors st)\<rparr>"
  let ?st2 = "?st1\<lparr>completed := completed st + 1\<rparr>"
  have lt: "\<not> n \<le> completed st + 1"
    using Cons.prems(3) by simp
  have "validate_inner M V values b (item_done n callback) st = Inr ?st2"
    using validate_inner_check_attr [OF cb] lt by (simp add: item_done_def)
  moreover have "each_loop n (validate_inner M V values) callback (pre @ a # post) ?st2 = Inl e"
    using Cons.prems by (intro Cons.IH) auto
  ultimately show ?case by simp
qed

lemma uniq_fold:
  "distinct seen \<Longrightarrow>
     distinct (fold (\<lambda>x seen. if x \<in> set seen then seen else seen @ [x]) xs seen)
     \<and> set (fold (\<lambda>x seen. if x \<in> set seen then seen else seen @ [x]) xs seen) = set seen \<union> set xs"
  by (induction xs arbitrary: seen) auto

lemma distinct_uniq: "distinct (uniq xs)" and set_uniq: "set (uniq xs) = set xs"
  using uniq_fold [of "[]" xs] by (simp_all add: uniq_def)

lemma distinct_selected: "distinct (map fst V) \<Longrightarrow> distinct (selected V values presentOnly)"
  by (simp add: selected_def intersection_def distinct_uniq)

text \<open>The whole call, when every selected check comes to its end.\<close>

lemma validate_all:
  assumes "distinct (map fst V)"
    and "\<forall>a \<in> set (selected V values presentOnly). check_attr M V values a = Inr (r a)"
  shows "\<exists>errs. validate M V values presentOnly cb
                 = (if isFunction (callback_of presentOnly cb) then
                      Inr [(callback_of presentOnly cb,
                            if errs = [] then NoArg else ValidationError errs)]
                    else Inl TypeError)
               \<and> (\<forall>a. map_of errs a = (if a \<in> set (selected V values presentOnly)
                                          then map_of (errors (r a)) a else None))"
proof (cases "selected V values presentOnly = []")
  case True
  then have "validate M V values presentOnly cb
                 = (if isFunction (callback_of presentOnly cb) then
                      Inr [(callback_of presentOnly cb, if [] = [] then NoArg else ValidationError [])]
                    else Inl TypeError)"
    by (simp add: validate_def async_each_def finish_def invoke_def)
  then show ?thesis using True by (intro exI [of _ "[]"]) simp
next
  case False
  let ?sel = "selected V values presentOnly"
  let ?st0 = "\<lparr>errors = [], completed = 0, calls = []\<rparr> :: 'a vstate"
  have "\<exists>E. each_loop (length ?sel) (validate_inner M V values)
               (finish (callback_of presentOnly cb)) ?sel ?st0
             = (case finish (callback_of presentOnly cb) (?st0\<lparr>errors := E, completed := length ?sel\<rparr>) of
                  Inl e \<Rightarrow> Inl e | Inr st' \<Rightarrow> Inr st')
           \<and> (\<forall>a. map_of E a = (if a \<in> set ?sel \<and> map_of (errors (r a)) a \<noteq> None
                                  then map_of (errors (r a)) a else map_of (errors ?st0) a))"
    using assms(2) distinct_selected [OF assms(1)] False
    by (intro each_loop_all) auto
  then obtain E where
    E: "each_loop (length ?sel) (validate_inner M V values)
               (finish (callback_of presentOnly cb)) ?sel ?st0
             = (case finish (callback_of presentOnly cb) (?st0\<lparr>errors := E, completed := length ?sel\<rparr>) of
                  Inl e \<Rightarrow> Inl e | Inr st' \<Rightarrow> Inr st')"
    and mE: "\<And>a. map_of E a = (if a \<in> set ?sel \<and> map_of (errors (r a)) a \<noteq> None
                                  then map_of (errors (r a)) a else map_of (errors ?st0) a)"
    by blast
  have "validate M V values presentOnly cb
                 = (if isFunction (callback_of presentOnly cb) then
                      Inr [(callback_of presentOnly cb, if E = [] then NoArg else ValidationError E)]
                    else Inl TypeError)"
    using False E by (simp add: validate_def async_each_def finish_def invoke_def)
  moreover have "\<forall>a. map_of E a = (if a \<in> set ?sel then map_of (errors (r a)) a else None)"
    using mE by auto
  ultimately show ?thesis by blast
qed

lemma validate_throws:
  assumes "selected V values presentOnly = pre @ a # post"
    and "\<forall>b \<in> set pre. \<exists>st. check_attr M V values b = Inr st"
    and "check_attr M V values a = Inl e"
  shows "validate M V values presentOnly cb = Inl e"
proof -
  have "each_loop (length (pre @ a # post)) (validate_inner M V values)
          (finish (callback_of presentOnly cb)) (pre @ a # post)
          \<lparr>errors = [], completed = 0, calls = []\<rparr> = Inl e"
    using assms(2,3) by (intro each_loop_throws) auto
  then show ?thesis using assms(1)
    by (simp add: validate_def async_each_def)
qed

text \<open>
  C6, at a failing input: the schema \<open>{name: {type: 'string', required: true}, active:
  {type: 'boolean', required: true}}\<close> and the bag \<open>{name: 5}\<close>. The check of \<open>name\<close> finds a
  violation; the check of \<open>active\<close> then throws on \<open>null.toString()\<close>, and the \<open>TypeError\<close>
  leaves \<open>validate\<close>: the callback is not called once but never, and the violation found is
  lost.
\<close>

theorem validate_callback_never_called:
  "check_attr sample_matcher
      [(''name'', [(''type'', JStr ''string''), (''required'', JBool True)]),
       (''active'', [(''type'', JStr ''boolean''), (''required'', JBool True)])]
      [(''name'', JNum 5)] ''name''
     = Inr \<lparr>errors = [(''name'', [Violation ''type'' (JNum 5) []])], completed = 0, calls = []\<rparr>
   \<and> validate sample_matcher
      [(''name'', [(''type'', JStr ''string''), (''required'', JBool True)]),
       (''active'', [(''type'', JStr ''boolean''), (''required'', JBool True)])]
      [(''name'', JNum 5)] (JBool False) (JFun ''function (err) {}'')
     = Inl TypeError"
proof -
  let ?V = "[(''name'', [(''type'', JStr ''string''), (''required'', JBool True)]),
             (''active'', [(''type'', JStr ''boolean''), (''required'', JBool True)])]"
  let ?vals = "[(''name'', JNum 5)]"
  have n: "check_attr sample_matcher ?V ?vals ''name''
     = Inr \<lparr>errors = [(''name'', [Violation ''type'' (JNum 5) []])], completed = 0, calls = []\<rparr>"
    by (simp add: check_attr_outcome outcome_def validation_of_def obj_get_def get_prop_def
        object_prototype_def truthy_def boolean_accepted_def anchor_def Anchor_def isFunction_def
        Anchor_to_def rule_errors_def sample_matcher_def sample_types_def sample_rules_def
        match.simps isString_def)
  have a: "check_attr sample_matcher ?V ?vals ''active'' = Inl TypeError"
    by (simp add: check_attr_outcome outcome_def validation_of_def obj_get_def get_prop_def
        object_prototype_def truthy_def boolean_accepted_def toString_def anchor_def Anchor_def
        isFunction_def)
  have s: "selected ?V ?vals (JBool False) = [''name''] @ ''active'' # []"
    by (simp add: selected_def isFunction_def truthy_def)
  have "\<forall>b \<in> set [''name'']. \<exists>st. check_attr sample_matcher ?V ?vals b = Inr st"
    using n by simp
  then have "validate sample_matcher ?V ?vals (JBool False) (JFun ''function (err) {}'') = Inl TypeError"
    using s a by (intro validate_throws)
  then show ?thesis using n by simp
qed

subsection \<open>The attributes selected\<close>

text \<open>
  C8. When \<open>presentOnly\<close> is true, the attributes that \<open>validate\<close> checks are exactly those in
  the intersection of the declared attribute names and the keys of the values bag; when it
  is false or omitted (also when the callback stands in its place) they are all the declared
  attributes. What \<open>validate\<close> does is what the checks of these attributes do, taken in
  order, and nothing else: an exception of the first check that throws leaves the call; when
  no check throws, the callback is called once, with an error map that holds for every
  selected attribute what its check has found, and nothing for any other attribute. So a
  declared attribute that is absent from the bag, required or not, yields no violation in
  present-only mode. \<open>r a\<close> is the state in which the check of attribute \<open>a\<close>, run alone, ends.
\<close>

theorem present_only_selection:
  assumes "distinct (map fst V)"
  shows "(\<not> isFunction presentOnly \<and> truthy presentOnly \<longrightarrow>
            set (selected V values presentOnly) = set (map fst V) \<inter> set (map fst values))
         \<and> (isFunction presentOnly \<or> \<not> truthy presentOnly \<longrightarrow>
            selected V values presentOnly = map fst V)
         \<and> (selected V values presentOnly = pre @ a # post
              \<and> (\<forall>b \<in> set pre. \<exists>st. check_attr M V values b = Inr st)
              \<and> check_attr M V values a = Inl e \<longrightarrow>
            validate M V values presentOnly cb = Inl e)
         \<and> ((\<forall>b \<in> set (selected V values presentOnly). check_attr M V values b = Inr (r b)) \<longrightarrow>
            (\<exists>errs.
               validate M V values presentOnly cb
                 = (if isFunction (callback_of presentOnly cb) then
                      Inr [(callback_of presentOnly cb,
                            if errs = [] then NoArg else ValidationError errs)]
                    else Inl TypeError)
               \<and> (\<forall>b. map_of errs b = (if b \<in> set (selected V values presentOnly)
                                          then map_of (errors (r b)) b else None))))"
proof (intro conjI impI)
  assume "\<not> isFunction presentOnly \<and> truthy presentOnly"
  then show "set (selected V values presentOnly) = set (map fst V) \<inter> set (map fst values)"
    by (auto simp: selected_def intersection_def set_uniq)
next
  assume "isFunction presentOnly \<or> \<not> truthy presentOnly"
  then show "selected V values presentOnly = map fst V"
    by (auto simp: selected_def)
next
  assume "selected V values presentOnly = pre @ a # post
              \<and> (\<forall>b \<in> set pre. \<exists>st. check_attr M V values b = Inr st)
              \<and> check_attr M V values a = Inl e"
  then show "validate M V values presentOnly cb = Inl e"
    by (intro validate_throws) auto
next
  assume "\<forall>b \<in> set (selected V values presentOnly). check_attr M V values b = Inr (r b)"
  then show "\<exists>errs.
               validate M V values presentOnly cb
                 = (if isFunction (callback_of presentOnly cb) then
                      Inr [(callback_of presentOnly cb,
                            if errs = [] then NoArg else ValidationError errs)]
                    else Inl TypeError)
               \<and> (\<forall>b. map_of errs b = (if b \<in> set (selected V values presentOnly)
                                          then map_of (errors (r b)) b else None))"
    by (rule validate_all [OF assms])
qed

theorem present_only_selection_witness:
  "distinct (map fst [(''name'', [(''type'', JStr ''string''), (''required'', JBool True)]),
                      (''email'', [(''type'', JStr ''string''), (''required'', JBool True)])])
   \<and> truthy (JBool True) \<and> \<not> truthy (JBool False)
   \<and> selected [(''name'', [(''type'', JStr ''string''), (''required'', JBool True)]),
                (''email'', [(''type'', JStr ''string''), (''required'', JBool True)])]
        [(''name'', JStr ''x'')] (JBool False) = [''name'', ''email'']
   \<and> set (selected [(''name'', [(''type'', JStr ''string''), (''required'', JBool True)]),
                     (''email'', [(''type'', JStr ''string''), (''required'', JBool True)])]
             [(''name'', JStr ''x'')] (JBool True)) = {''name''}
   \<and> validate sample_matcher
        [(''name'', [(''type'', JStr ''string''), (''required'', JBool True)]),
         (''email'', [(''type'', JStr ''string''), (''required'', JBool True)])]
        [(''name'', JStr ''x'')] (JBool True) (JFun ''cb'') = Inr [(JFun ''cb'', NoArg)]
   \<and> (\<exists>errs. validate sample_matcher
                 [(''name'', [(''type'', JStr ''string''), (''required'', JBool True)]),
                  (''email'', [(''type'', JStr ''string''), (''required'', JBool True)])]
                 [(''name'', JNum 5)] (JBool True) (JFun ''cb'')
                = Inr [(JFun ''cb'', ValidationError errs)]
              \<and> map_of errs ''name'' = Some [Violation ''type'' (JNum 5) []]
              \<and> map_of errs ''email'' = None)
   \<and> (\<exists>errs. validate sample_matcher
                 [(''name'', [(''type'', JStr ''string''), (''required'', JBool True)]),
                  (''email'', [(''type'', JStr ''string''), (''required'', JBool True)])]
                 [(''name'', JStr ''x'')] (JBool False) (JFun ''cb'')
                = Inr [(JFun ''cb'', ValidationError errs)]
              \<and> map_of errs ''name'' = None
              \<and> map_of errs ''email''
                  = Some [Violation ''type'' JNull [], Violation ''required'' JNull []])
   \<and> validate sample_matcher
        [(''active'', [(''type'', JStr ''boolean''), (''required'', JBool True)]),
         (''name'', [(''type'', JStr ''string''), (''required'', JBool True)])]
        [(''name'', JStr ''x'')] (JBool False) (JFun ''cb'') = Inl TypeError"
proof -
  let ?V = "[(''name'', [(''type'', JStr ''string''), (''required'', JBool True)]),
             (''email'', [(''type'', JStr ''string''), (''required'', JBool True)])]"
  let ?W = "[(''active'', [(''type'', JStr ''boolean''), (''required'', JBool True)]),
             (''name'', [(''type'', JStr ''string''), (''required'', JBool True)])]"
  let ?vals = "[(''name'', JStr ''x'')]"
  let ?st0 = "\<lparr>errors = [], completed = 0, calls = []\<rparr> :: violation vstate"
  let ?found = "[Violation ''type'' JNull [], Violation ''required'' JNull []]"
  let ?r = "\<lambda>a. if a = ''email'' then ?st0\<lparr>errors := [(''email'', ?found)]\<rparr> else ?st0"
  have d: "distinct (map fst ?V)" and dW: "distinct (map fst ?W)"
    by simp_all
  have t: "truthy (JBool True)" and nt: "\<not> truthy (JBool False)"
    and nf: "\<not> isFunction (JBool True)" and f: "isFunction (JFun ''cb'')"
    by (simp_all add: truthy_def isFunction_def)
  have c1: "check_attr sample_matcher ?V ?vals ''name'' = Inr ?st0"
    and c2: "check_attr sample_matcher ?V ?vals ''email'' = Inr (?st0\<lparr>errors := [(''email'', ?found)]\<rparr>)"
    by (simp_all add: check_attr_outcome outcome_def validation_of_def obj_get_def get_prop_def
        object_prototype_def truthy_def boolean_accepted_def anchor_def Anchor_def isFunction_def
        Anchor_to_def rule_errors_def sample_matcher_def sample_types_def sample_rules_def
        match.simps isString_def)
  have c3: "check_attr sample_matcher ?W ?vals ''active'' = Inl TypeError"
    by (simp add: check_attr_outcome outcome_def validation_of_def obj_get_def get_prop_def
        object_prototype_def truthy_def boolean_accepted_def toString_def anchor_def Anchor_def
        isFunction_def)
  note all = present_only_selection [OF d, of "JBool False" ?vals "[]" "''name''" "[]"
      sample_matcher TypeError "JFun ''cb''" ?r]
  note only = present_only_selection [OF d, of "JBool True" ?vals "[]" "''name''" "[]"
      sample_matcher TypeError "JFun ''cb''" "\<lambda>a. ?st0"]
  note thrown = present_only_selection [OF dW, of "JBool False" ?vals "[]" "''active''" "[''name'']"
      sample_matcher TypeError "JFun ''cb''" "\<lambda>a. ?st0"]
  have a: "selected ?V ?vals (JBool False) = [''name'', ''email'']"
    using all nt by simp
  have b: "set (selected ?V ?vals (JBool True)) = {''name''}"
    using only t nf by auto
  have "\<forall>x \<in> set (selected ?V ?vals (JBool True)). check_attr sample_matcher ?V ?vals x = Inr ?st0"
    unfolding b using c1 by simp
  with only obtain errs where
    v: "validate sample_matcher ?V ?vals (JBool True) (JFun ''cb'')
          = (if isFunction (callback_of (JBool True) (JFun ''cb'')) then
               Inr [(callback_of (JBool True) (JFun ''cb''),
                     if errs = [] then NoArg else ValidationError errs)]
             else Inl TypeError)"
    and m: "\<forall>x. map_of errs x = (if x \<in> set (selected ?V ?vals (JBool True))
                                   then map_of (errors ?st0) x else None)"
    by blast
  have "map_of errs = Map.empty"
    using m by (auto simp: fun_eq_iff)
  then have "errs = []"
    by simp
  then have v1: "validate sample_matcher ?V ?vals (JBool True) (JFun ''cb'') = Inr [(JFun ''cb'', NoArg)]"
    using v by (simp add: callback_of_def isFunction_def)
  have "\<forall>x \<in> set (selected ?V ?vals (JBool False)). check_attr sample_matcher ?V ?vals x = Inr (?r x)"
    unfolding a using c1 c2 by simp
  with all obtain errs' where
    v': "validate sample_matcher ?V ?vals (JBool False) (JFun ''cb'')
          = (if isFunction (callback_of (JBool False) (JFun ''cb'')) then
               Inr [(callback_of (JBool False) (JFun ''cb''),
                     if errs' = [] then NoArg else ValidationError errs')]
             else Inl TypeError)"
    and m': "\<forall>x. map_of errs' x = (if x \<in> set (selected ?V ?vals (JBool False))
                                    then map_of (errors (?r x)) x else None)"
    by blast
  have e1: "map_of errs' ''name'' = None" and e2: "map_of errs' ''email'' = Some ?found"
    using m' unfolding a by simp_all
  then have "errs' \<noteq> []"
    by auto
  then have v2: "validate sample_matcher ?V ?vals (JBool False) (JFun ''cb'')
          = Inr [(JFun ''cb'', ValidationError errs')]"
    using v' by (simp add: callback_of_def isFunction_def)
  let ?five = "[(''name'', JNum 5)]"
  let ?q = "\<lambda>a. if a = ''name'' then ?st0\<lparr>errors := [(''name'', [Violation ''type'' (JNum 5) []])]\<rparr>
                 else ?st0"
  note five = present_only_selection [OF d, of "JBool True" ?five "[]" "''name''" "[]"
      sample_matcher TypeError "JFun ''cb''" ?q]
  have b5: "set (selected ?V ?five (JBool True)) = {''name''}"
    using five t nf by auto
  have c5: "check_attr sample_matcher ?V ?five ''name''
              = Inr (?st0\<lparr>errors := [(''name'', [Violation ''type'' (JNum 5) []])]\<rparr>)"
    by (simp add: check_attr_outcome outcome_def validation_of_def obj_get_def get_prop_def
        object_prototype_def truthy_def boolean_accepted_def anchor_def Anchor_def isFunction_def
        Anchor_to_def rule_errors_def sample_matcher_def sample_types_def sample_rules_def
        match.simps isString_def)
  have "\<forall>x \<in> set (selected ?V ?five (JBool True)). check_attr sample_matcher ?V ?five x = Inr (?q x)"
    unfolding b5 using c5 by simp
  with five obtain errs5 where
    v5: "validate sample_matcher ?V ?five (JBool True) (JFun ''cb'')
          = (if isFunction (callback_of (JBool True) (JFun ''cb'')) then
               Inr [(callback_of (JBool True) (JFun ''cb''),
                     if errs5 = [] then NoArg else ValidationError errs5)]
             else Inl TypeError)"
    and m5: "\<forall>x. map_of errs5 x = (if x \<in> set (selected ?V ?five (JBool True))
                                    then map_of (errors (?q x)) x else None)"
    by blast
  have f1: "map_of errs5 ''name'' = Some [Violation ''type'' (JNum 5) []]"
    and f2: "map_of errs5 ''email'' = None"
    using m5 unfolding b5 by simp_all
  then have "errs5 \<noteq> []"
    by auto
  then have v4: "validate sample_matcher ?V ?five (JBool True) (JFun ''cb'')
          = Inr [(JFun ''cb'', ValidationError errs5)]"
    using v5 by (simp add: callback_of_def isFunction_def)
  have sW: "selected ?W ?vals (JBool False) = [] @ ''active'' # [''name'']"
    by (simp add: selected_def isFunction_def truthy_def)
  have v3: "validate sample_matcher ?W ?vals (JBool False) (JFun ''cb'') = Inl TypeError"
    using thrown sW c3 by simp
  show ?thesis using d t nt a b v1 v2 e1 e2 v3 v4 f1 f2 by blast
qed

end
